theory Spec2Isabelle
  imports Complex_Main
begin

section \<open>Data model of join-em.py\<close>

text \<open>
  A shapely point is a pair of coordinates (\<open>x\<close>, \<open>y\<close>). A LineString is a Python object
  with a mutable attribute \<open>coords\<close>; the lists \<open>src_segments\<close> and \<open>segments_in_order\<close>
  hold references to such objects. The model keeps the objects in a store, from references
  to coordinate sequences, so that the in-place assignment to \<open>closest_segment.coords\<close> is
  an update of the store that every list holding the reference would see. Coordinates and
  distances are Python floats; the model takes them as real numbers and leaves the two
  distance functions open, so that nothing below depends on how a distance is computed.
\<close>

type_synonym point = "real \<times> real"
type_synonym ref = nat
type_synonym store = "ref \<Rightarrow> point list"

datatype error = IndexError | ValueError

datatype location = AtStart | AtEnd

text \<open>
  The two distance functions come from the libraries shapely and haversine, which are not
  part of the program: \<open>distance lib p q\<close> is \<open>p.distance(q)\<close> and \<open>haversine lib a b\<close> is
  \<open>haversine(a, b)\<close>.
\<close>

record geolib =
  distance :: "point \<Rightarrow> point \<Rightarrow> real"
  haversine :: "real \<times> real \<Rightarrow> real \<times> real \<Rightarrow> real"

text \<open>\<open>seg.coords[0]\<close> and \<open>seg.coords[-1]\<close>: both raise IndexError on an empty sequence.\<close>

definition coords_first :: "point list \<Rightarrow> error + point" where
  "coords_first cs = (case cs of [] \<Rightarrow> Inl IndexError | c # _ \<Rightarrow> Inr c)"

definition coords_last :: "point list \<Rightarrow> error + point" where
  "coords_last cs = (if cs = [] then Inl IndexError else Inr (last cs))"

section \<open>find_closest\<close>

text \<open>The three local variables of \<open>find_closest\<close>, which are also the tuple it returns.\<close>

record closest =
  closest_segment :: "ref option"
  closest_location :: "location option"
  closest_distance :: real

definition endpoint_distance :: "geolib \<Rightarrow> bool \<Rightarrow> point \<Rightarrow> point \<Rightarrow> real" where
  "endpoint_distance lib haversine_distance point e =
     (if haversine_distance
      then haversine lib (snd e, fst e) (snd point, fst point) * 1000
      else distance lib point e)"

text \<open>The two \<open>if\<close> statements at the end of the loop body, in their order.\<close>

definition update_closest :: "ref \<Rightarrow> real \<Rightarrow> real \<Rightarrow> closest \<Rightarrow> closest" where
  "update_closest seg start_distance end_distance c =
     (let c1 = (if closest_segment c = None \<or> start_distance < closest_distance c
                then \<lparr>closest_segment = Some seg, closest_location = Some AtStart,
                      closest_distance = start_distance\<rparr>
                else c)
      in if end_distance < closest_distance c1
         then \<lparr>closest_segment = Some seg, closest_location = Some AtEnd,
               closest_distance = end_distance\<rparr>
         else c1)"

fun find_closest_loop ::
  "geolib \<Rightarrow> bool \<Rightarrow> store \<Rightarrow> point \<Rightarrow> ref list \<Rightarrow> closest \<Rightarrow> error + closest" where
  "find_closest_loop lib hav h point [] c = Inr c"
| "find_closest_loop lib hav h point (seg # segments) c =
     (case coords_first (h seg) of
        Inl e \<Rightarrow> Inl e
      | Inr start \<Rightarrow>
          (case coords_last (h seg) of
             Inl e \<Rightarrow> Inl e
           | Inr end \<Rightarrow>
               find_closest_loop lib hav h point segments
                 (update_closest seg (endpoint_distance lib hav point start)
                    (endpoint_distance lib hav point end) c)))"

definition find_closest ::
  "geolib \<Rightarrow> bool \<Rightarrow> store \<Rightarrow> point \<Rightarrow> ref list \<Rightarrow> error + closest" where
  "find_closest lib haversine_distance h point segments =
     find_closest_loop lib haversine_distance h point segments
       \<lparr>closest_segment = None, closest_location = None, closest_distance = 0\<rparr>"

section \<open>join_em\<close>

text \<open>
  \<open>src_segments.remove(x)\<close> deletes the first element that is \<open>x\<close> itself or compares equal
  to it, and raises ValueError when there is none. Two LineStrings compare equal when their
  coordinate sequences are equal. Where a LineString compares equal to itself only, the
  element deleted is \<open>x\<close>; lemma \<open>find_closest_removed\<close> shows that for the segment
  a search returns the two readings delete the same element.
\<close>

fun list_remove :: "store \<Rightarrow> ref \<Rightarrow> ref list \<Rightarrow> error + ref list" where
  "list_remove h x [] = Inl ValueError"
| "list_remove h x (r # rs) =
     (if r = x \<or> h r = h x then Inr rs
      else (case list_remove h x rs of Inl e \<Rightarrow> Inl e | Inr rs' \<Rightarrow> Inr (r # rs')))"

text \<open>The variables of \<open>join_em\<close> that live across iterations of the \<open>while\<close> loop.\<close>

record state =
  store :: store
  src_segments :: "ref list"
  segments_in_order :: "ref list"
  seg :: ref

datatype outcome = Continue state | Break state | Raise error

text \<open>\<open>closest_segment.coords = list(closest_segment.coords)[::-1]\<close>\<close>

definition flip :: "store \<Rightarrow> ref \<Rightarrow> store" where
  "flip h r = h(r := rev (h r))"

text \<open>
  The test \<open>closest_segment and distance < tolerance\<close>: the segment that is joined, if any.
  A segment that a search returns has coordinates (the search has read its first and last
  point), so it is true as a condition, and None is false.
\<close>

definition matched :: "closest \<Rightarrow> real \<Rightarrow> ref option" where
  "matched m tolerance =
     (case closest_segment m of
        None \<Rightarrow> None
      | Some c \<Rightarrow> if closest_distance m < tolerance then Some c else None)"

text \<open>Lines 33 to 38: the segment found next to the end point goes to the back of the list.\<close>

definition join_at_end :: "state \<Rightarrow> closest \<Rightarrow> ref \<Rightarrow> outcome" where
  "join_at_end st m c =
     (case list_remove (store st) c (src_segments st) of
        Inl e \<Rightarrow> Raise e
      | Inr rest \<Rightarrow>
          Continue
            \<lparr>store = (if closest_location m = Some AtEnd then flip (store st) c else store st),
             src_segments = rest,
             segments_in_order = segments_in_order st @ [c],
             seg = c\<rparr>)"

text \<open>Lines 46 to 51: the segment found next to the start point goes to the front.\<close>

definition join_at_start :: "state \<Rightarrow> closest \<Rightarrow> ref \<Rightarrow> outcome" where
  "join_at_start st m c =
     (case list_remove (store st) c (src_segments st) of
        Inl e \<Rightarrow> Raise e
      | Inr rest \<Rightarrow>
          Continue
            \<lparr>store = (if closest_location m = Some AtStart then flip (store st) c else store st),
             src_segments = rest,
             segments_in_order = c # segments_in_order st,
             seg = c\<rparr>)"

text \<open>
  The body of the \<open>while\<close> loop, lines 25 to 55. Both query points are taken from the
  variable \<open>seg\<close>, which holds the segment joined last.
\<close>

definition loop_body :: "geolib \<Rightarrow> bool \<Rightarrow> real \<Rightarrow> state \<Rightarrow> outcome" where
  "loop_body lib hav tolerance st =
     (case coords_first (store st (seg st)) of
        Inl e \<Rightarrow> Raise e
      | Inr start \<Rightarrow>
     (case coords_last (store st (seg st)) of
        Inl e \<Rightarrow> Raise e
      | Inr end \<Rightarrow>
     (case find_closest lib hav (store st) end (src_segments st) of
        Inl e \<Rightarrow> Raise e
      | Inr m \<Rightarrow>
     (case matched m tolerance of
        Some c \<Rightarrow> join_at_end st m c
      | None \<Rightarrow>
     (case find_closest lib hav (store st) start (src_segments st) of
        Inl e \<Rightarrow> Raise e
      | Inr m' \<Rightarrow>
     (case matched m' tolerance of
        Some c \<Rightarrow> join_at_start st m' c
      | None \<Rightarrow> Break st))))))"

text \<open>
  The \<open>while\<close> loop. It ends when the list is empty, at the \<open>break\<close>, or with an exception.
\<close>

function join_loop :: "geolib \<Rightarrow> bool \<Rightarrow> real \<Rightarrow> state \<Rightarrow> error + state" where
  "join_loop lib hav tolerance st =
     (if length (src_segments st) > 0 then
        (case loop_body lib hav tolerance st of
           Continue st' \<Rightarrow> join_loop lib hav tolerance st'
         | Break st' \<Rightarrow> Inr st'
         | Raise e \<Rightarrow> Inl e)
      else Inr st)"
  by pat_completeness auto
termination
proof (relation "measure (\<lambda>(lib, hav, tolerance, st). length (src_segments st))")
  show "wf (measure (\<lambda>(lib, hav, tolerance, st). length (src_segments st)))"
    by simp
next
  fix lib :: geolib and hav :: bool and tolerance :: real and st st' :: state
  assume body: "loop_body lib hav tolerance st = Continue st'"
  have shorter: "length rs' < length rs" if "list_remove h x rs = Inr rs'"
    for h x rs rs'
    using that by (induction rs arbitrary: rs') (auto split: if_splits sum.splits)
  from body have "\<exists>x. list_remove (store st) x (src_segments st) = Inr (src_segments st')"
    by (auto simp: loop_body_def join_at_end_def join_at_start_def
        split: sum.splits option.splits)
  then have "length (src_segments st') < length (src_segments st)"
    using shorter by blast
  then show "((lib, hav, tolerance, st'), (lib, hav, tolerance, st))
      \<in> measure (\<lambda>(lib, hav, tolerance, st). length (src_segments st))"
    by simp
qed

text \<open>
  The same loop cut off after \<open>k\<close> iterations: None when more iterations are needed.
\<close>

fun join_loop_within :: "nat \<Rightarrow> geolib \<Rightarrow> bool \<Rightarrow> real \<Rightarrow> state \<Rightarrow> (error + state) option" where
  "join_loop_within k lib hav tolerance st =
     (if length (src_segments st) > 0 then
        (case k of
           0 \<Rightarrow> None
         | Suc k' \<Rightarrow>
             (case loop_body lib hav tolerance st of
                Continue st' \<Rightarrow> join_loop_within k' lib hav tolerance st'
              | Break st' \<Rightarrow> Some (Inr st')
              | Raise e \<Rightarrow> Some (Inl e)))
      else Some (Inr st))"

text \<open>
  Lines 13 to 20: every feature with a geometry becomes a new LineString object, appended
  to \<open>src_segments\<close>; a feature without geometry is skipped. The objects get the references
  0, 1, 2, ... in the order of the file.
\<close>

definition read_source :: "point list option list \<Rightarrow> store \<times> ref list" where
  "read_source features =
     (let geometries = concat (map (\<lambda>f. case f of None \<Rightarrow> [] | Some g \<Rightarrow> [g]) features)
      in ((\<lambda>r. if r < length geometries then geometries ! r else []),
          [0 ..< length geometries]))"

text \<open>
  Lines 22 to 55: \<open>src_segments.pop()\<close> takes the last element, and raises IndexError on
  an empty list.
\<close>

definition seed :: "store \<Rightarrow> ref list \<Rightarrow> state" where
  "seed h segments =
     \<lparr>store = h, src_segments = butlast segments,
      segments_in_order = [last segments], seg = last segments\<rparr>"

definition assemble ::
  "geolib \<Rightarrow> bool \<Rightarrow> real \<Rightarrow> store \<Rightarrow> ref list \<Rightarrow> error + state" where
  "assemble lib hav tolerance h segments =
     (if segments = [] then Inl IndexError
      else join_loop lib hav tolerance (seed h segments))"

text \<open>
  Lines 60 to 84: the coordinate sequences written to the destination, one record in
  combine mode and one record per segment otherwise.
\<close>

definition all_coords :: "store \<Rightarrow> ref list \<Rightarrow> point list" where
  "all_coords h chain = fold (\<lambda>s acc. acc @ h s) chain []"

definition write_output :: "bool \<Rightarrow> state \<Rightarrow> point list list" where
  "write_output combine st =
     (if combine then [all_coords (store st) (segments_in_order st)]
      else map (store st) (segments_in_order st))"

definition join_em ::
  "geolib \<Rightarrow> point list option list \<Rightarrow> real \<Rightarrow> bool \<Rightarrow> bool \<Rightarrow> error + point list list" where
  "join_em lib features tolerance haversine_distance combine =
     (case read_source features of
        (h, segments) \<Rightarrow>
          (case assemble lib haversine_distance tolerance h segments of
             Inl e \<Rightarrow> Inl e
           | Inr st \<Rightarrow> Inr (write_output combine st)))"

section \<open>States during assembly\<close>

text \<open>
  \<open>reaches lib hav tolerance st st'\<close>: the loop started in \<open>st\<close> is at the top of an
  iteration in \<open>st'\<close>, after some number of completed iterations.
\<close>

inductive reaches :: "geolib \<Rightarrow> bool \<Rightarrow> real \<Rightarrow> state \<Rightarrow> state \<Rightarrow> bool"
  for lib :: geolib and hav :: bool and tolerance :: real and st :: state where
  reaches_start: "reaches lib hav tolerance st st"
| reaches_step:
    "reaches lib hav tolerance st st' \<Longrightarrow> src_segments st' \<noteq> [] \<Longrightarrow>
     loop_body lib hav tolerance st' = Continue st'' \<Longrightarrow> reaches lib hav tolerance st st''"

section \<open>The candidates of a search, as the specification describes them\<close>

text \<open>
  Every (segment, location) pair of the pool with its distance to the target, in pool
  order, the start of a segment before its end.
\<close>

type_synonym candidate = "ref \<times> location \<times> real"

definition endpoint_pairs ::
  "geolib \<Rightarrow> bool \<Rightarrow> store \<Rightarrow> point \<Rightarrow> ref list \<Rightarrow> candidate list" where
  "endpoint_pairs lib hav h point segments =
     concat (map (\<lambda>s. [(s, AtStart, endpoint_distance lib hav point (hd (h s))),
                        (s, AtEnd, endpoint_distance lib hav point (last (h s)))]) segments)"

text \<open>
  The running minimum over a sequence of candidates: a later candidate replaces the
  current one only when its distance is strictly smaller.
\<close>

fun running_min :: "candidate \<Rightarrow> candidate list \<Rightarrow> candidate" where
  "running_min best [] = best"
| "running_min best (x # xs) =
     running_min (if snd (snd x) < snd (snd best) then x else best) xs"

definition streaming_min :: "candidate list \<Rightarrow> candidate option" where
  "streaming_min cands = (case cands of [] \<Rightarrow> None | c # cs \<Rightarrow> Some (running_min c cs))"

section \<open>A concrete library, for evaluating the program on examples\<close>

text \<open>
  The planar distance of shapely is the Euclidean distance. The haversine package
  computes the great-circle distance in kilometres on a sphere of radius 6371.
\<close>

definition euclid :: "point \<Rightarrow> point \<Rightarrow> real" where
  "euclid p q = sqrt ((fst p - fst q)\<^sup>2 + (snd p - snd q)\<^sup>2)"

definition radians :: "real \<Rightarrow> real" where
  "radians x = x * pi / 180"

definition great_circle :: "real \<times> real \<Rightarrow> real \<times> real \<Rightarrow> real" where
  "great_circle a b =
     (let lat1 = radians (fst a); lng1 = radians (snd a);
          lat2 = radians (fst b); lng2 = radians (snd b);
          d = (sin ((lat2 - lat1) * 0.5))\<^sup>2
              + cos lat1 * cos lat2 * (sin ((lng2 - lng1) * 0.5))\<^sup>2
      in 2 * 6371 * arcsin (sqrt d))"

definition geo :: geolib where
  "geo = \<lparr>distance = euclid, haversine = great_circle\<rparr>"

declare join_loop.simps [simp del]

text \<open>Three roads that meet at the origin.\<close>

definition junction :: store where
  "junction = (\<lambda>r. [])(0 := [(0, 0), (0, 3)], 1 := [(-4, 0), (0, 0)], 2 := [(0, 0), (4, 0)])"

text \<open>
  A straight line from (0, 0) to (3, 0) cut into three pieces, the middle piece last in
  the file; and the same with the third piece stored backwards.
\<close>

definition line3 :: store where
  "line3 = (\<lambda>r. [])(0 := [(0, 0), (1, 0)], 1 := [(2, 0), (3, 0)], 2 := [(1, 0), (2, 0)])"

definition line3r :: store where
  "line3r = (\<lambda>r. [])(0 := [(0, 0), (1, 0)], 1 := [(3, 0), (2, 0)], 2 := [(1, 0), (2, 0)])"

text \<open>
  The smallest of the four distances between an end point of the seed polyline \<open>b\<close> and
  an end point of the other polyline \<open>a\<close>, measured from the seed as the searches do.
\<close>

definition nearest_endpoints :: "geolib \<Rightarrow> bool \<Rightarrow> point list \<Rightarrow> point list \<Rightarrow> real" where
  "nearest_endpoints lib hav b a =
     min (min (endpoint_distance lib hav (last b) (hd a))
              (endpoint_distance lib hav (last b) (last a)))
         (min (endpoint_distance lib hav (hd b) (hd a))
              (endpoint_distance lib hav (hd b) (last a)))"

section \<open>Evaluating the concrete library\<close>

lemma euclid_less_iff [simp]:
  "euclid p q < euclid p' q' \<longleftrightarrow>
   (fst p - fst q)\<^sup>2 + (snd p - snd q)\<^sup>2 < (fst p' - fst q')\<^sup>2 + (snd p' - snd q')\<^sup>2"
  unfolding euclid_def by simp

lemma euclid_less_bound [simp]:
  "0 \<le> t \<Longrightarrow> euclid p q < t \<longleftrightarrow> (fst p - fst q)\<^sup>2 + (snd p - snd q)\<^sup>2 < t\<^sup>2"
  unfolding euclid_def by (metis real_sqrt_less_iff real_sqrt_abs abs_of_nonneg)

lemma euclid_same_y [simp]: "euclid (a, b) (c, b) = \<bar>a - c\<bar>"
  by (simp add: euclid_def)

lemma euclid_same_x [simp]: "euclid (a, b) (a, d) = \<bar>b - d\<bar>"
  by (simp add: euclid_def)

section \<open>Reading the end points\<close>

lemma coords_first_Inr: "cs \<noteq> [] \<Longrightarrow> coords_first cs = Inr (hd cs)"
  by (cases cs) (simp_all add: coords_first_def)

lemma coords_last_Inr: "cs \<noteq> [] \<Longrightarrow> coords_last cs = Inr (last cs)"
  by (simp add: coords_last_def)

lemma coords_first_Inr_iff: "coords_first cs = Inr p \<longleftrightarrow> cs \<noteq> [] \<and> p = hd cs"
  by (cases cs) (auto simp: coords_first_def)

lemma coords_last_Inr_iff: "coords_last cs = Inr p \<longleftrightarrow> cs \<noteq> [] \<and> p = last cs"
  by (auto simp: coords_last_def)

section \<open>The search is a running minimum\<close>

lemma running_min_mem: "running_min b xs \<in> set (b # xs)"
  by (induction xs arbitrary: b) (auto split: if_splits)

lemma running_min_le_best: "snd (snd (running_min b xs)) \<le> snd (snd b)"
proof (induction xs arbitrary: b)
  case Nil
  show ?case by simp
next
  case (Cons x xs)
  show ?case
    using Cons.IH [of "if snd (snd x) < snd (snd b) then x else b"]
    by (simp split: if_splits)
qed

lemma running_min_le: "x \<in> set (b # xs) \<Longrightarrow> snd (snd (running_min b xs)) \<le> snd (snd x)"
proof (induction xs arbitrary: b)
  case Nil
  then show ?case by simp
next
  case (Cons y ys)
  let ?b' = "if snd (snd y) < snd (snd b) then y else b"
  have le: "snd (snd (running_min ?b' ys)) \<le> snd (snd ?b')"
    by (rule running_min_le_best)
  from Cons.prems consider "x = b" | "x = y" | "x \<in> set ys" by auto
  then show ?case
  proof cases
    case 1
    with le show ?thesis by (simp split: if_splits)
  next
    case 2
    with le show ?thesis by (simp split: if_splits)
  next
    case 3
    then have "x \<in> set (?b' # ys)" by simp
    from Cons.IH [OF this] show ?thesis by simp
  qed
qed

lemma find_closest_loop_running_min:
  "\<forall>r\<in>set segments. h r \<noteq> [] \<Longrightarrow>
   find_closest_loop lib hav h point segments
     \<lparr>closest_segment = Some s, closest_location = Some l, closest_distance = d\<rparr> =
   (case running_min (s, l, d) (endpoint_pairs lib hav h point segments) of
      (s', l', d') \<Rightarrow>
        Inr \<lparr>closest_segment = Some s', closest_location = Some l', closest_distance = d'\<rparr>)"
proof (induction segments arbitrary: s l d)
  case Nil
  show ?case by (simp add: endpoint_pairs_def)
next
  case (Cons r rs)
  then have r: "h r \<noteq> []" and rs: "\<forall>r\<in>set rs. h r \<noteq> []" by simp_all
  show ?case
    using Cons.IH [OF rs]
    by (simp add: coords_first_Inr [OF r] coords_last_Inr [OF r] update_closest_def
        endpoint_pairs_def Let_def)
qed

lemma find_closest_streaming_min:
  assumes "segments \<noteq> []" and "\<forall>r\<in>set segments. h r \<noteq> []"
  shows "\<exists>s l d. find_closest lib hav h point segments =
            Inr \<lparr>closest_segment = Some s, closest_location = Some l, closest_distance = d\<rparr>
          \<and> streaming_min (endpoint_pairs lib hav h point segments) = Some (s, l, d)"
proof -
  from assms obtain r rs where seg: "segments = r # rs" by (cases segments) auto
  with assms have r: "h r \<noteq> []" and rs: "\<forall>r\<in>set rs. h r \<noteq> []" by simp_all
  obtain s l d where rm:
    "running_min (r, AtStart, endpoint_distance lib hav point (hd (h r)))
       ((r, AtEnd, endpoint_distance lib hav point (last (h r)))
         # endpoint_pairs lib hav h point rs) = (s, l, d)"
    using prod_cases3 by blast
  have "find_closest lib hav h point segments =
          Inr \<lparr>closest_segment = Some s, closest_location = Some l, closest_distance = d\<rparr>"
    using rm find_closest_loop_running_min [OF rs, of lib hav point]
    by (simp add: seg find_closest_def coords_first_Inr [OF r] coords_last_Inr [OF r]
        update_closest_def endpoint_pairs_def Let_def split: if_splits)
  moreover have "streaming_min (endpoint_pairs lib hav h point segments) = Some (s, l, d)"
    using rm by (simp add: seg streaming_min_def endpoint_pairs_def)
  ultimately show ?thesis by blast
qed

lemma streaming_min_least:
  assumes "streaming_min cands = Some best"
  shows "best \<in> set cands \<and> (\<forall>x\<in>set cands. snd (snd best) \<le> snd (snd x))"
proof (cases cands)
  case Nil
  with assms show ?thesis by (simp add: streaming_min_def)
next
  case (Cons c cs)
  with assms have best: "best = running_min c cs" by (simp add: streaming_min_def)
  show ?thesis
    unfolding best Cons using running_min_mem [of c cs] running_min_le [of _ c cs] by blast
qed

lemma find_closest_loop_nonempty:
  "find_closest_loop lib hav h point segments c = Inr m \<Longrightarrow> \<forall>r\<in>set segments. h r \<noteq> []"
  by (induction segments arbitrary: c)
     (auto simp: coords_first_def split: sum.splits list.splits)

text \<open>
  C2. On a non-empty pool of non-empty polylines, find_closest returns the
  (segment, location) pair that the running minimum over all start and end points selects,
  in pool order with the start of each segment before its end and a replacement only on a
  strictly smaller distance; that pair belongs to the pool and its distance is the least of
  all the pairs' distances.
\<close>

theorem find_closest_is_streaming_minimum:
  assumes "segments \<noteq> []" and "\<forall>r\<in>set segments. h r \<noteq> []"
  shows "\<exists>s l d.
           find_closest lib hav h point segments =
             Inr \<lparr>closest_segment = Some s, closest_location = Some l, closest_distance = d\<rparr>
         \<and> streaming_min (endpoint_pairs lib hav h point segments) = Some (s, l, d)
         \<and> (s, l, d) \<in> set (endpoint_pairs lib hav h point segments)
         \<and> (\<forall>x\<in>set (endpoint_pairs lib hav h point segments). d \<le> snd (snd x))"
proof -
  from find_closest_streaming_min [OF assms, of lib hav point]
  obtain s l d where
    fc: "find_closest lib hav h point segments =
           Inr \<lparr>closest_segment = Some s, closest_location = Some l, closest_distance = d\<rparr>"
    and sm: "streaming_min (endpoint_pairs lib hav h point segments) = Some (s, l, d)"
    by blast
  from streaming_min_least [OF sm] fc sm show ?thesis by auto
qed

theorem find_closest_is_streaming_minimum_witness:
  "find_closest geo False junction (4, 0) [0, 1] =
     Inr \<lparr>closest_segment = Some 0, closest_location = Some AtStart, closest_distance = 4\<rparr>
   \<and> streaming_min (endpoint_pairs geo False junction (4, 0) [0, 1]) = Some (0, AtStart, 4)
   \<and> endpoint_pairs geo False junction (4, 0) [0, 1] =
       [(0, AtStart, 4), (0, AtEnd, 5), (1, AtStart, 8), (1, AtEnd, 4)]"
proof -
  have pairs: "endpoint_pairs geo False junction (4, 0) [0, 1] =
       [(0, AtStart, 4), (0, AtEnd, 5), (1, AtStart, 8), (1, AtEnd, 4)]"
    by (simp add: endpoint_pairs_def endpoint_distance_def junction_def geo_def euclid_def)
  have "[0, 1] \<noteq> ([] :: ref list)" and "\<forall>r\<in>set [0, 1]. junction r \<noteq> []"
    by (simp_all add: junction_def)
  from find_closest_is_streaming_minimum [OF this, of geo False "(4, 0)"]
  show ?thesis
    unfolding pairs by (auto simp: streaming_min_def)
qed

text \<open>
  C7. With an empty pool find_closest returns no segment, no location and the distance 0;
  whenever it returns, the segment is None exactly when the pool is empty; and on a
  non-empty pool of non-empty polylines it does return, with a segment.
\<close>

theorem find_closest_none_iff_empty:
  "find_closest lib hav h point [] =
     Inr \<lparr>closest_segment = None, closest_location = None, closest_distance = 0\<rparr>
   \<and> (\<forall>m. find_closest lib hav h point segments = Inr m \<longrightarrow>
          (closest_segment m = None \<longleftrightarrow> segments = []))
   \<and> (segments \<noteq> [] \<and> (\<forall>r\<in>set segments. h r \<noteq> []) \<longrightarrow>
        (\<exists>m c. find_closest lib hav h point segments = Inr m \<and> closest_segment m = Some c))"
proof (intro conjI allI impI)
  show "find_closest lib hav h point [] =
     Inr \<lparr>closest_segment = None, closest_location = None, closest_distance = 0\<rparr>"
    by (simp add: find_closest_def)
next
  fix m
  assume ret: "find_closest lib hav h point segments = Inr m"
  show "closest_segment m = None \<longleftrightarrow> segments = []"
  proof (cases "segments = []")
    case True
    with ret show ?thesis by (auto simp: find_closest_def)
  next
    case False
    from ret have "\<forall>r\<in>set segments. h r \<noteq> []"
      unfolding find_closest_def by (rule find_closest_loop_nonempty)
    from find_closest_streaming_min [OF False this, of lib hav point] ret False
    show ?thesis by auto
  qed
next
  assume "segments \<noteq> [] \<and> (\<forall>r\<in>set segments. h r \<noteq> [])"
  then have "segments \<noteq> []" and "\<forall>r\<in>set segments. h r \<noteq> []" by simp_all
  from find_closest_streaming_min [OF this, of lib hav point]
  show "\<exists>m c. find_closest lib hav h point segments = Inr m \<and> closest_segment m = Some c"
    by auto
qed

theorem find_closest_none_iff_empty_witness:
  "find_closest geo False junction (4, 0) [] =
     Inr \<lparr>closest_segment = None, closest_location = None, closest_distance = 0\<rparr>
   \<and> (\<exists>m c. find_closest geo False junction (4, 0) [0, 1] = Inr m \<and> closest_segment m = Some c)"
  using find_closest_none_iff_empty [of geo False junction "(4, 0)" "[0, 1]"]
  by (simp add: junction_def)

section \<open>The segment found is the one that is removed\<close>

lemma update_closest_segment:
  "closest_segment (update_closest r ds de c) = closest_segment c
   \<or> closest_segment (update_closest r ds de c) = Some r"
  by (simp add: update_closest_def Let_def)

lemma update_closest_not_None: "closest_segment (update_closest r ds de c) \<noteq> None"
  by (auto simp: update_closest_def Let_def)

lemma update_closest_bound:
  "closest_distance (update_closest r ds de c) \<le> ds
   \<and> closest_distance (update_closest r ds de c) \<le> de"
  by (auto simp: update_closest_def Let_def)

lemma update_closest_decreasing:
  "closest_segment c \<noteq> None \<Longrightarrow>
   closest_distance (update_closest r ds de c) \<le> closest_distance c"
  by (auto simp: update_closest_def Let_def)

lemma update_closest_keep:
  "closest_segment c \<noteq> None \<Longrightarrow> closest_distance c \<le> ds \<Longrightarrow> closest_distance c \<le> de \<Longrightarrow>
   update_closest r ds de c = c"
  by (auto simp: update_closest_def Let_def)

text \<open>
  Once the running distance is no larger than both distances of the coordinates of \<open>c\<close>,
  a later segment with these coordinates, and so \<open>c\<close> itself, is never selected.
\<close>

lemma find_closest_loop_skips:
  assumes "find_closest_loop lib hav h point segments c0 = Inr m"
    and "closest_segment c0 \<noteq> None"
    and "closest_segment c0 \<noteq> Some c"
    and "closest_distance c0 \<le> endpoint_distance lib hav point (hd (h c))"
    and "closest_distance c0 \<le> endpoint_distance lib hav point (last (h c))"
  shows "closest_segment m \<noteq> Some c"
  using assms
proof (induction segments arbitrary: c0)
  case Nil
  then show ?case by simp
next
  case (Cons r rs)
  from Cons.prems(1) have r: "h r \<noteq> []"
    using find_closest_loop_nonempty by fastforce
  let ?c1 = "update_closest r (endpoint_distance lib hav point (hd (h r)))
               (endpoint_distance lib hav point (last (h r))) c0"
  from Cons.prems(1) have run: "find_closest_loop lib hav h point rs ?c1 = Inr m"
    by (simp add: coords_first_Inr [OF r] coords_last_Inr [OF r])
  show ?case
  proof (cases "h r = h c")
    case True
    with Cons.prems have "?c1 = c0"
      by (simp add: update_closest_keep)
    with run Cons.IH [of c0] Cons.prems show ?thesis by simp
  next
    case False
    then have "r \<noteq> c" by auto
    have "closest_segment ?c1 = closest_segment c0 \<or> closest_segment ?c1 = Some r"
      by (rule update_closest_segment)
    with \<open>r \<noteq> c\<close> Cons.prems(3) have seg1: "closest_segment ?c1 \<noteq> Some c" by auto
    have "closest_distance ?c1 \<le> closest_distance c0"
      using Cons.prems(2) by (rule update_closest_decreasing)
    with Cons.prems(4,5)
    have "closest_distance ?c1 \<le> endpoint_distance lib hav point (hd (h c))"
      and "closest_distance ?c1 \<le> endpoint_distance lib hav point (last (h c))"
      by simp_all
    with Cons.IH [OF run update_closest_not_None seg1] show ?thesis by simp
  qed
qed

lemma find_closest_loop_first_equal:
  assumes "find_closest_loop lib hav h point segments c0 = Inr m"
    and "closest_segment m = Some c"
    and "closest_segment c0 \<noteq> Some c"
  shows "\<exists>pre post. segments = pre @ c # post \<and> (\<forall>r\<in>set pre. h r \<noteq> h c)"
  using assms
proof (induction segments arbitrary: c0)
  case Nil
  then show ?case by simp
next
  case (Cons r rs)
  from Cons.prems(1) have r: "h r \<noteq> []"
    using find_closest_loop_nonempty by fastforce
  let ?c1 = "update_closest r (endpoint_distance lib hav point (hd (h r)))
               (endpoint_distance lib hav point (last (h r))) c0"
  from Cons.prems(1) have run: "find_closest_loop lib hav h point rs ?c1 = Inr m"
    by (simp add: coords_first_Inr [OF r] coords_last_Inr [OF r])
  show ?case
  proof (cases "r = c")
    case True
    then have "r # rs = [] @ c # rs \<and> (\<forall>r\<in>set []. h r \<noteq> h c)" by simp
    then show ?thesis by blast
  next
    case False
    have "closest_segment ?c1 = closest_segment c0 \<or> closest_segment ?c1 = Some r"
      by (rule update_closest_segment)
    with \<open>r \<noteq> c\<close> Cons.prems(3) have seg1: "closest_segment ?c1 \<noteq> Some c" by auto
    from Cons.IH [OF run Cons.prems(2) seg1]
    obtain pre post where rs: "rs = pre @ c # post" and pre: "\<forall>r\<in>set pre. h r \<noteq> h c"
      by blast
    have "h r \<noteq> h c"
    proof
      assume eq: "h r = h c"
      have b1: "closest_distance ?c1 \<le> endpoint_distance lib hav point (hd (h c))"
        and b2: "closest_distance ?c1 \<le> endpoint_distance lib hav point (last (h c))"
        using update_closest_bound [of r _ _ c0] by (simp_all add: eq)
      have "closest_segment m \<noteq> Some c"
        by (rule find_closest_loop_skips [OF run update_closest_not_None seg1 b1 b2])
      with Cons.prems(2) show False by simp
    qed
    with rs pre have "r # rs = (r # pre) @ c # post \<and> (\<forall>r\<in>set (r # pre). h r \<noteq> h c)"
      by simp
    then show ?thesis by blast
  qed
qed

lemma list_remove_first_equal:
  "\<forall>r\<in>set pre. h r \<noteq> h c \<Longrightarrow> list_remove h c (pre @ c # post) = Inr (pre @ post)"
  by (induction pre) auto

lemma find_closest_removed:
  assumes "find_closest lib hav h point segments = Inr m" and "closest_segment m = Some c"
  shows "\<exists>pre post. segments = pre @ c # post \<and> list_remove h c segments = Inr (pre @ post)"
proof -
  have "closest_segment
          \<lparr>closest_segment = None, closest_location = None, closest_distance = 0\<rparr> \<noteq> Some c"
    by simp
  from find_closest_loop_first_equal [OF assms(1) [unfolded find_closest_def] assms(2) this]
  show ?thesis using list_remove_first_equal by blast
qed

lemma matched_Some:
  "matched m tolerance = Some c \<longleftrightarrow> closest_segment m = Some c \<and> closest_distance m < tolerance"
  by (auto simp: matched_def split: option.splits)

section \<open>One iteration\<close>

lemma loop_body_Break: "loop_body lib hav tolerance st = Break st' \<Longrightarrow> st' = st"
  by (auto simp: loop_body_def join_at_end_def join_at_start_def
      split: sum.splits option.splits)

lemma loop_body_Continue:
  assumes "loop_body lib hav tolerance st = Continue st'"
  shows "\<exists>c pre post. src_segments st = pre @ c # post \<and> src_segments st' = pre @ post
           \<and> seg st' = c
           \<and> (segments_in_order st' = segments_in_order st @ [c]
              \<or> segments_in_order st' = c # segments_in_order st)
           \<and> (store st' = store st \<or> store st' = flip (store st) c)"
proof -
  from assms obtain point m c where
    fc: "find_closest lib hav (store st) point (src_segments st) = Inr m"
    and mt: "matched m tolerance = Some c"
    and j: "join_at_end st m c = Continue st' \<or> join_at_start st m c = Continue st'"
    by (auto simp: loop_body_def split: sum.splits option.splits)
  from mt have "closest_segment m = Some c" by (simp add: matched_Some)
  from find_closest_removed [OF fc this] obtain pre post where
    pool: "src_segments st = pre @ c # post"
    and rm: "list_remove (store st) c (src_segments st) = Inr (pre @ post)" by blast
  from j rm have "src_segments st' = pre @ post \<and> seg st' = c
      \<and> (segments_in_order st' = segments_in_order st @ [c]
         \<or> segments_in_order st' = c # segments_in_order st)
      \<and> (store st' = store st \<or> store st' = flip (store st) c)"
    by (auto simp: join_at_end_def join_at_start_def)
  with pool show ?thesis by blast
qed

section \<open>The whole loop\<close>

lemma loop_body_shrinks:
  "loop_body lib hav tolerance st = Continue st' \<Longrightarrow>
   Suc (length (src_segments st')) = length (src_segments st)"
  using loop_body_Continue [of lib hav tolerance st st'] by auto

lemma join_loop_within_enough:
  "length (src_segments st) \<le> k \<Longrightarrow>
   join_loop_within k lib hav tolerance st = Some (join_loop lib hav tolerance st)"
proof (induction k arbitrary: st)
  case 0
  then show ?case by (simp add: join_loop.simps [of lib hav tolerance st])
next
  case (Suc k)
  show ?case
  proof (cases "loop_body lib hav tolerance st")
    case (Continue st')
    show ?thesis
    proof (cases "src_segments st = []")
      case True
      then show ?thesis by (simp add: join_loop.simps [of lib hav tolerance st])
    next
      case False
      from loop_body_shrinks [OF Continue] Suc.prems have "length (src_segments st') \<le> k"
        by simp
      from Suc.IH [OF this] Continue False show ?thesis
        by (simp add: join_loop.simps [of lib hav tolerance st])
    qed
  next
    case (Break st')
    then show ?thesis by (simp add: join_loop.simps [of lib hav tolerance st])
  next
    case (Raise e)
    then show ?thesis by (simp add: join_loop.simps [of lib hav tolerance st])
  qed
qed

lemma reaches_step_first:
  assumes "reaches lib hav tolerance st1 st2"
    and "src_segments st \<noteq> []" and "loop_body lib hav tolerance st = Continue st1"
  shows "reaches lib hav tolerance st st2"
  using assms
proof (induction rule: reaches.induct)
  case reaches_start
  from reaches.reaches_start assms(2,3) show ?case by (rule reaches_step)
next
  case (reaches_step st' st'')
  then show ?case using reaches.reaches_step by blast
qed

lemma join_loop_reaches:
  "join_loop lib hav tolerance st = Inr st' \<Longrightarrow> reaches lib hav tolerance st st'"
proof (induction lib hav tolerance st rule: join_loop.induct)
  case (1 lib hav tolerance st)
  show ?case
  proof (cases "src_segments st = []")
    case True
    with "1.prems" have "st' = st" by (simp add: join_loop.simps [of lib hav tolerance st])
    then show ?thesis by (simp add: reaches_start)
  next
    case False
    show ?thesis
    proof (cases "loop_body lib hav tolerance st")
      case (Continue st1)
      with False "1.prems" have "join_loop lib hav tolerance st1 = Inr st'"
        by (simp add: join_loop.simps [of lib hav tolerance st])
      with "1.IH" [of st1] False Continue have "reaches lib hav tolerance st1 st'" by simp
      then show ?thesis using False Continue by (rule reaches_step_first)
    next
      case (Break st1)
      with False "1.prems" loop_body_Break [OF Break] have "st' = st"
        by (simp add: join_loop.simps [of lib hav tolerance st])
      then show ?thesis by (simp add: reaches_start)
    next
      case (Raise e)
      with False "1.prems" show ?thesis
        by (simp add: join_loop.simps [of lib hav tolerance st])
    qed
  qed
qed

lemma reaches_count:
  "reaches lib hav tolerance st st' \<Longrightarrow>
   length (segments_in_order st') + length (src_segments st')
     = length (segments_in_order st) + length (src_segments st)"
proof (induction rule: reaches.induct)
  case reaches_start
  show ?case by simp
next
  case (reaches_step st' st'')
  from loop_body_Continue [OF reaches_step.hyps(3)] reaches_step.IH show ?case by auto
qed

lemma seed_count:
  "segments \<noteq> [] \<Longrightarrow>
   length (segments_in_order (seed h segments)) + length (src_segments (seed h segments))
     = length segments"
  by (simp add: seed_def)

section \<open>Unfolding the loop one iteration at a time\<close>

lemma join_loop_empty:
  "src_segments st = [] \<Longrightarrow> join_loop lib hav tolerance st = Inr st"
  by (simp add: join_loop.simps [of lib hav tolerance st])

lemma join_loop_Continue:
  "src_segments st \<noteq> [] \<Longrightarrow> loop_body lib hav tolerance st = Continue st' \<Longrightarrow>
   join_loop lib hav tolerance st = join_loop lib hav tolerance st'"
  by (simp add: join_loop.simps [of lib hav tolerance st])

lemma join_loop_Break:
  "src_segments st \<noteq> [] \<Longrightarrow> loop_body lib hav tolerance st = Break st' \<Longrightarrow>
   join_loop lib hav tolerance st = Inr st"
  using loop_body_Break [of lib hav tolerance st st']
  by (simp add: join_loop.simps [of lib hav tolerance st])

lemma join_loop_Raise:
  "src_segments st \<noteq> [] \<Longrightarrow> loop_body lib hav tolerance st = Raise e \<Longrightarrow>
   join_loop lib hav tolerance st = Inl e"
  by (simp add: join_loop.simps [of lib hav tolerance st])

lemmas eval_defs = loop_body_def find_closest_def update_closest_def endpoint_distance_def
  coords_first_def coords_last_def matched_def join_at_end_def join_at_start_def flip_def
  geo_def Let_def

section \<open>Orientation of a joined segment\<close>

text \<open>
  C4. When the search from the end point matches a segment \<open>c\<close>, the iteration continues
  with \<open>c\<close> appended to the chain and its coordinates reversed exactly when the matched
  location is the end; when that search has no match and the search from the start point
  matches \<open>c\<close>, it continues with \<open>c\<close> in front of the chain and its coordinates reversed
  exactly when the matched location is the start.
\<close>

theorem join_orientation:
  assumes "coords_first (store st (seg st)) = Inr start"
    and "coords_last (store st (seg st)) = Inr end"
    and "find_closest lib hav (store st) end (src_segments st) = Inr m"
  shows "(\<forall>c. matched m tolerance = Some c \<longrightarrow>
            (\<exists>rest. loop_body lib hav tolerance st =
               Continue \<lparr>store = (if closest_location m = Some AtEnd
                                  then (store st)(c := rev (store st c)) else store st),
                         src_segments = rest,
                         segments_in_order = segments_in_order st @ [c],
                         seg = c\<rparr>))
       \<and> (\<forall>m' c. matched m tolerance = None \<longrightarrow>
            find_closest lib hav (store st) start (src_segments st) = Inr m' \<longrightarrow>
            matched m' tolerance = Some c \<longrightarrow>
            (\<exists>rest. loop_body lib hav tolerance st =
               Continue \<lparr>store = (if closest_location m' = Some AtStart
                                  then (store st)(c := rev (store st c)) else store st),
                         src_segments = rest,
                         segments_in_order = c # segments_in_order st,
                         seg = c\<rparr>))"
proof (intro conjI allI impI)
  fix c
  assume mt: "matched m tolerance = Some c"
  then have "closest_segment m = Some c" by (simp add: matched_Some)
  from find_closest_removed [OF assms(3) this] obtain rest where
    "list_remove (store st) c (src_segments st) = Inr rest" by blast
  with assms mt have "loop_body lib hav tolerance st =
      Continue \<lparr>store = (if closest_location m = Some AtEnd
                         then (store st)(c := rev (store st c)) else store st),
                src_segments = rest,
                segments_in_order = segments_in_order st @ [c],
                seg = c\<rparr>"
    by (simp add: loop_body_def join_at_end_def flip_def)
  then show "\<exists>rest. loop_body lib hav tolerance st =
      Continue \<lparr>store = (if closest_location m = Some AtEnd
                         then (store st)(c := rev (store st c)) else store st),
                src_segments = rest,
                segments_in_order = segments_in_order st @ [c],
                seg = c\<rparr>" by blast
next
  fix m' c
  assume none: "matched m tolerance = None"
    and fc: "find_closest lib hav (store st) start (src_segments st) = Inr m'"
    and mt: "matched m' tolerance = Some c"
  from mt have "closest_segment m' = Some c" by (simp add: matched_Some)
  from find_closest_removed [OF fc this] obtain rest where
    "list_remove (store st) c (src_segments st) = Inr rest" by blast
  with assms none fc mt have "loop_body lib hav tolerance st =
      Continue \<lparr>store = (if closest_location m' = Some AtStart
                         then (store st)(c := rev (store st c)) else store st),
                src_segments = rest,
                segments_in_order = c # segments_in_order st,
                seg = c\<rparr>"
    by (simp add: loop_body_def join_at_start_def flip_def)
  then show "\<exists>rest. loop_body lib hav tolerance st =
      Continue \<lparr>store = (if closest_location m' = Some AtStart
                         then (store st)(c := rev (store st c)) else store st),
                src_segments = rest,
                segments_in_order = c # segments_in_order st,
                seg = c\<rparr>" by blast
qed

theorem join_orientation_witness:
  "(\<exists>rest. loop_body geo False 1
       \<lparr>store = junction, src_segments = [0, 1], segments_in_order = [2], seg = 2\<rparr> =
     Continue \<lparr>store = junction(0 := [(0, 3), (0, 0)]), src_segments = rest,
               segments_in_order = [0, 2], seg = 0\<rparr>)
   \<and> (\<exists>rest. loop_body geo False (1/2)
       \<lparr>store = line3r, src_segments = [0, 1], segments_in_order = [2], seg = 2\<rparr> =
     Continue \<lparr>store = line3r(1 := [(2, 0), (3, 0)]), src_segments = rest,
               segments_in_order = [2, 1], seg = 1\<rparr>)"
proof
  let ?st = "\<lparr>store = junction, src_segments = [0, 1], segments_in_order = [2], seg = 2\<rparr>"
  have a: "coords_first (store ?st (seg ?st)) = Inr (0, 0)"
    and b: "coords_last (store ?st (seg ?st)) = Inr (4, 0)"
    by (simp_all add: coords_first_def coords_last_def junction_def)
  have c: "find_closest geo False (store ?st) (4, 0) (src_segments ?st) =
      Inr \<lparr>closest_segment = Some 0, closest_location = Some AtStart, closest_distance = 4\<rparr>"
    by (simp add: eval_defs junction_def)
  have d: "find_closest geo False (store ?st) (0, 0) (src_segments ?st) =
      Inr \<lparr>closest_segment = Some 0, closest_location = Some AtStart, closest_distance = 0\<rparr>"
    by (simp add: eval_defs junction_def)
  from join_orientation [OF a b c, of 1, THEN conjunct2, rule_format, OF _ d, of 0]
  show "\<exists>rest. loop_body geo False 1 ?st =
     Continue \<lparr>store = junction(0 := [(0, 3), (0, 0)]), src_segments = rest,
               segments_in_order = [0, 2], seg = 0\<rparr>"
    by (simp add: matched_def junction_def)
next
  let ?st = "\<lparr>store = line3r, src_segments = [0, 1], segments_in_order = [2], seg = 2\<rparr>"
  have a: "coords_first (store ?st (seg ?st)) = Inr (1, 0)"
    and b: "coords_last (store ?st (seg ?st)) = Inr (2, 0)"
    by (simp_all add: coords_first_def coords_last_def line3r_def)
  have c: "find_closest geo False (store ?st) (2, 0) (src_segments ?st) =
      Inr \<lparr>closest_segment = Some 1, closest_location = Some AtEnd, closest_distance = 0\<rparr>"
    by (simp add: eval_defs line3r_def)
  from join_orientation [OF a b c, of "1/2", THEN conjunct1, rule_format, of 1]
  show "\<exists>rest. loop_body geo False (1/2) ?st =
     Continue \<lparr>store = line3r(1 := [(2, 0), (3, 0)]), src_segments = rest,
               segments_in_order = [2, 1], seg = 1\<rparr>"
    by (simp add: matched_def line3r_def)
qed

section \<open>Termination and the size of chain and pool\<close>

lemma line3_first_iteration:
  "loop_body geo False (1/2)
     \<lparr>store = line3, src_segments = [0, 1], segments_in_order = [2], seg = 2\<rparr> =
   Continue \<lparr>store = line3, src_segments = [0], segments_in_order = [2, 1], seg = 1\<rparr>"
  by (simp add: eval_defs line3_def)

lemma line3_second_iteration:
  "loop_body geo False (1/2)
     \<lparr>store = line3, src_segments = [0], segments_in_order = [2, 1], seg = 1\<rparr> =
   Break \<lparr>store = line3, src_segments = [0], segments_in_order = [2, 1], seg = 1\<rparr>"
  by (simp add: eval_defs line3_def)

lemma line3_seed:
  "seed line3 [0, 1, 2] =
   \<lparr>store = line3, src_segments = [0, 1], segments_in_order = [2], seg = 2\<rparr>"
  by (simp add: seed_def)

lemma line3_join_loop:
  "join_loop geo False (1/2) (seed line3 [0, 1, 2]) =
   Inr \<lparr>store = line3, src_segments = [0], segments_in_order = [2, 1], seg = 1\<rparr>"
proof -
  have "join_loop geo False (1/2) (seed line3 [0, 1, 2]) =
      join_loop geo False (1/2)
        \<lparr>store = line3, src_segments = [0], segments_in_order = [2, 1], seg = 1\<rparr>"
    unfolding line3_seed by (rule join_loop_Continue [OF _ line3_first_iteration]) simp
  also have "\<dots> =
      Inr \<lparr>store = line3, src_segments = [0], segments_in_order = [2, 1], seg = 1\<rparr>"
    by (rule join_loop_Break [OF _ line3_second_iteration]) simp
  finally show ?thesis .
qed

text \<open>
  C5. For a non-empty input of n polylines the loop ends, with a result or an exception,
  within n - 1 iterations and so within n: every iteration that does not leave the loop
  takes exactly one polyline out of the pool, which holds n - 1 polylines after seeding.
\<close>

theorem loop_ends_within_pool_size:
  assumes "segments \<noteq> []"
  shows "join_loop_within (length segments - 1) lib hav tolerance (seed h segments) =
           Some (join_loop lib hav tolerance (seed h segments))
       \<and> join_loop_within (length segments) lib hav tolerance (seed h segments) =
           Some (join_loop lib hav tolerance (seed h segments))
       \<and> (\<forall>st st'. loop_body lib hav tolerance st = Continue st' \<longrightarrow>
            Suc (length (src_segments st')) = length (src_segments st))"
proof (intro conjI allI impI)
  have pool: "length (src_segments (seed h segments)) = length segments - 1"
    by (simp add: seed_def)
  show "join_loop_within (length segments - 1) lib hav tolerance (seed h segments) =
           Some (join_loop lib hav tolerance (seed h segments))"
    by (rule join_loop_within_enough) (simp add: pool)
  show "join_loop_within (length segments) lib hav tolerance (seed h segments) =
           Some (join_loop lib hav tolerance (seed h segments))"
    by (rule join_loop_within_enough) (simp add: pool)
next
  fix st st'
  assume "loop_body lib hav tolerance st = Continue st'"
  then show "Suc (length (src_segments st')) = length (src_segments st)"
    by (rule loop_body_shrinks)
qed

theorem loop_ends_within_pool_size_witness:
  "join_loop_within 2 geo False (1/2) (seed line3 [0, 1, 2]) =
     Some (Inr \<lparr>store = line3, src_segments = [0], segments_in_order = [2, 1], seg = 1\<rparr>)
   \<and> join_loop_within 3 geo False (1/2) (seed line3 [0, 1, 2]) =
     Some (Inr \<lparr>store = line3, src_segments = [0], segments_in_order = [2, 1], seg = 1\<rparr>)"
proof -
  have ne: "[0, 1, 2] \<noteq> ([] :: ref list)" by simp
  have n: "length [0, 1, 2 :: ref] = 3" and n1: "(3 :: nat) - 1 = 2"
    by simp_all
  from loop_ends_within_pool_size [OF ne, of geo False "1/2" line3]
  show ?thesis unfolding n n1 line3_join_loop by blast
qed

text \<open>
  A search that matches makes the iteration continue, with the matched polyline taken out
  of the pool and put at the back of the chain (search from the end point) or at its front
  (search from the start point).
\<close>

lemma match_moves_tail:
  assumes "coords_first (store st (seg st)) = Inr start"
    and "coords_last (store st (seg st)) = Inr end"
    and "find_closest lib hav (store st) end (src_segments st) = Inr m"
    and "matched m tolerance = Some c"
  shows "\<exists>pre post st'. loop_body lib hav tolerance st = Continue st'
           \<and> src_segments st = pre @ c # post \<and> src_segments st' = pre @ post
           \<and> segments_in_order st' = segments_in_order st @ [c]"
proof -
  from assms(4) have "closest_segment m = Some c" by (simp add: matched_Some)
  from find_closest_removed [OF assms(3) this] obtain pre post where
    pool: "src_segments st = pre @ c # post"
    and rm: "list_remove (store st) c (src_segments st) = Inr (pre @ post)" by blast
  let ?st' = "\<lparr>store = (if closest_location m = Some AtEnd then flip (store st) c
                          else store st),
                 src_segments = pre @ post,
                 segments_in_order = segments_in_order st @ [c],
                 seg = c\<rparr>"
  from assms rm have "loop_body lib hav tolerance st = Continue ?st'"
    by (simp add: loop_body_def join_at_end_def)
  with pool have "loop_body lib hav tolerance st = Continue ?st'
           \<and> src_segments st = pre @ c # post \<and> src_segments ?st' = pre @ post
           \<and> segments_in_order ?st' = segments_in_order st @ [c]"
    by simp
  then show ?thesis by blast
qed

lemma match_moves_head:
  assumes "coords_first (store st (seg st)) = Inr start"
    and "coords_last (store st (seg st)) = Inr end"
    and "find_closest lib hav (store st) end (src_segments st) = Inr m"
    and "matched m tolerance = None"
    and "find_closest lib hav (store st) start (src_segments st) = Inr m'"
    and "matched m' tolerance = Some c"
  shows "\<exists>pre post st'. loop_body lib hav tolerance st = Continue st'
           \<and> src_segments st = pre @ c # post \<and> src_segments st' = pre @ post
           \<and> segments_in_order st' = c # segments_in_order st"
proof -
  from assms(6) have "closest_segment m' = Some c" by (simp add: matched_Some)
  from find_closest_removed [OF assms(5) this] obtain pre post where
    pool: "src_segments st = pre @ c # post"
    and rm: "list_remove (store st) c (src_segments st) = Inr (pre @ post)" by blast
  let ?st' = "\<lparr>store = (if closest_location m' = Some AtStart then flip (store st) c
                          else store st),
                 src_segments = pre @ post,
                 segments_in_order = c # segments_in_order st,
                 seg = c\<rparr>"
  from assms rm have "loop_body lib hav tolerance st = Continue ?st'"
    by (simp add: loop_body_def join_at_start_def)
  with pool have "loop_body lib hav tolerance st = Continue ?st'
           \<and> src_segments st = pre @ c # post \<and> src_segments ?st' = pre @ post
           \<and> segments_in_order ?st' = c # segments_in_order st"
    by simp
  then show ?thesis by blast
qed

text \<open>
  C6. In every state the loop passes through, and in the state the assembly returns, the
  chain and the pool together hold as many polylines as the input: the seed state has one
  polyline in the chain and the others in the pool; a search from the end point that
  matches a polyline makes the iteration continue with that polyline, and no other, taken
  out of the pool and put at the back of the chain; when that search does not match, a
  search from the start point that matches makes it continue with that polyline taken out
  of the pool and put at the front of the chain; and an iteration continues in no other
  way.
\<close>

theorem chain_and_pool_count:
  assumes "segments \<noteq> []"
  shows "length (segments_in_order (seed h segments)) = 1
       \<and> length (src_segments (seed h segments)) = length segments - 1
       \<and> (\<forall>st. reaches lib hav tolerance (seed h segments) st \<longrightarrow>
            length (segments_in_order st) + length (src_segments st) = length segments)
       \<and> (\<forall>st. assemble lib hav tolerance h segments = Inr st \<longrightarrow>
            length (segments_in_order st) + length (src_segments st) = length segments)
       \<and> (\<forall>st st'. loop_body lib hav tolerance st = Continue st' \<longrightarrow>
            (\<exists>c pre post. src_segments st = pre @ c # post \<and> src_segments st' = pre @ post
               \<and> (segments_in_order st' = segments_in_order st @ [c]
                  \<or> segments_in_order st' = c # segments_in_order st)))
       \<and> (\<forall>st start end m c.
            coords_first (store st (seg st)) = Inr start \<longrightarrow>
            coords_last (store st (seg st)) = Inr end \<longrightarrow>
            find_closest lib hav (store st) end (src_segments st) = Inr m \<longrightarrow>
            matched m tolerance = Some c \<longrightarrow>
            (\<exists>pre post st'. loop_body lib hav tolerance st = Continue st'
               \<and> src_segments st = pre @ c # post \<and> src_segments st' = pre @ post
               \<and> segments_in_order st' = segments_in_order st @ [c]
               \<and> Suc (length (src_segments st')) = length (src_segments st)
               \<and> length (segments_in_order st') = Suc (length (segments_in_order st))))
       \<and> (\<forall>st start end m m' c.
            coords_first (store st (seg st)) = Inr start \<longrightarrow>
            coords_last (store st (seg st)) = Inr end \<longrightarrow>
            find_closest lib hav (store st) end (src_segments st) = Inr m \<longrightarrow>
            matched m tolerance = None \<longrightarrow>
            find_closest lib hav (store st) start (src_segments st) = Inr m' \<longrightarrow>
            matched m' tolerance = Some c \<longrightarrow>
            (\<exists>pre post st'. loop_body lib hav tolerance st = Continue st'
               \<and> src_segments st = pre @ c # post \<and> src_segments st' = pre @ post
               \<and> segments_in_order st' = c # segments_in_order st
               \<and> Suc (length (src_segments st')) = length (src_segments st)
               \<and> length (segments_in_order st') = Suc (length (segments_in_order st))))"
proof -
  have c1: "length (segments_in_order (seed h segments)) = 1"
    and c2: "length (src_segments (seed h segments)) = length segments - 1"
    by (simp_all add: seed_def)
  have c3: "length (segments_in_order st) + length (src_segments st) = length segments"
    if "reaches lib hav tolerance (seed h segments) st" for st
    using reaches_count [OF that] seed_count [OF assms, of h] by simp
  have c4: "length (segments_in_order st) + length (src_segments st) = length segments"
    if a: "assemble lib hav tolerance h segments = Inr st" for st
  proof -
    from a assms have "join_loop lib hav tolerance (seed h segments) = Inr st"
      by (simp add: assemble_def)
    then have "reaches lib hav tolerance (seed h segments) st"
      by (rule join_loop_reaches)
    then show ?thesis by (rule c3)
  qed
  have c5: "\<exists>c pre post. src_segments st = pre @ c # post \<and> src_segments st' = pre @ post
               \<and> (segments_in_order st' = segments_in_order st @ [c]
                  \<or> segments_in_order st' = c # segments_in_order st)"
    if "loop_body lib hav tolerance st = Continue st'" for st st'
    using loop_body_Continue [OF that] by blast
  have c6: "\<exists>pre post st'. loop_body lib hav tolerance st = Continue st'
               \<and> src_segments st = pre @ c # post \<and> src_segments st' = pre @ post
               \<and> segments_in_order st' = segments_in_order st @ [c]
               \<and> Suc (length (src_segments st')) = length (src_segments st)
               \<and> length (segments_in_order st') = Suc (length (segments_in_order st))"
    if "coords_first (store st (seg st)) = Inr start"
      and "coords_last (store st (seg st)) = Inr end"
      and "find_closest lib hav (store st) end (src_segments st) = Inr m"
      and "matched m tolerance = Some c" for st start "end" m c
  proof -
    from match_moves_tail [OF that] obtain pre post st' where
      "loop_body lib hav tolerance st = Continue st'"
      "src_segments st = pre @ c # post" "src_segments st' = pre @ post"
      "segments_in_order st' = segments_in_order st @ [c]" by blast
    moreover from this have "Suc (length (src_segments st')) = length (src_segments st)"
      and "length (segments_in_order st') = Suc (length (segments_in_order st))"
      by simp_all
    ultimately show ?thesis by blast
  qed
  have c7: "\<exists>pre post st'. loop_body lib hav tolerance st = Continue st'
               \<and> src_segments st = pre @ c # post \<and> src_segments st' = pre @ post
               \<and> segments_in_order st' = c # segments_in_order st
               \<and> Suc (length (src_segments st')) = length (src_segments st)
               \<and> length (segments_in_order st') = Suc (length (segments_in_order st))"
    if "coords_first (store st (seg st)) = Inr start"
      and "coords_last (store st (seg st)) = Inr end"
      and "find_closest lib hav (store st) end (src_segments st) = Inr m"
      and "matched m tolerance = None"
      and "find_closest lib hav (store st) start (src_segments st) = Inr m'"
      and "matched m' tolerance = Some c" for st start "end" m m' c
  proof -
    from match_moves_head [OF that] obtain pre post st' where
      "loop_body lib hav tolerance st = Continue st'"
      "src_segments st = pre @ c # post" "src_segments st' = pre @ post"
      "segments_in_order st' = c # segments_in_order st" by blast
    moreover from this have "Suc (length (src_segments st')) = length (src_segments st)"
      and "length (segments_in_order st') = Suc (length (segments_in_order st))"
      by simp_all
    ultimately show ?thesis by blast
  qed
  show ?thesis
    apply (intro conjI allI impI)
          apply (rule c1)
         apply (rule c2)
        apply (erule c3)
       apply (erule c4)
      apply (erule c5)
     apply (erule (3) c6)
    apply (erule (5) c7)
    done
qed

theorem chain_and_pool_count_witness:
  "reaches geo False (1/2) (seed line3 [0, 1, 2])
     \<lparr>store = line3, src_segments = [0], segments_in_order = [2, 1], seg = 1\<rparr>
   \<and> assemble geo False (1/2) line3 [0, 1, 2] =
       Inr \<lparr>store = line3, src_segments = [0], segments_in_order = [2, 1], seg = 1\<rparr>
   \<and> length (segments_in_order
        \<lparr>store = line3, src_segments = [0], segments_in_order = [2, 1], seg = 1\<rparr>)
     + length (src_segments
        \<lparr>store = line3, src_segments = [0], segments_in_order = [2, 1], seg = 1\<rparr>)
     = length [0, 1, 2 :: ref]
   \<and> (\<exists>pre post st'.
         loop_body geo False (1/2)
           \<lparr>store = line3, src_segments = [0, 1], segments_in_order = [2], seg = 2\<rparr>
           = Continue st'
         \<and> [0, 1] = pre @ 1 # post \<and> src_segments st' = pre @ post
         \<and> segments_in_order st' = [2] @ [1])
   \<and> (\<exists>pre post st'.
         loop_body geo False 1
           \<lparr>store = junction, src_segments = [0, 1], segments_in_order = [2], seg = 2\<rparr>
           = Continue st'
         \<and> [0, 1] = pre @ 0 # post \<and> src_segments st' = pre @ post
         \<and> segments_in_order st' = 0 # [2])"
proof -
  have ne: "[0, 1, 2] \<noteq> ([] :: ref list)" by simp
  note on_line = chain_and_pool_count [OF ne, of line3 geo False "1/2"]
  note on_junction = chain_and_pool_count [OF ne, of junction geo False 1]
  have r: "reaches geo False (1/2) (seed line3 [0, 1, 2])
     \<lparr>store = line3, src_segments = [0], segments_in_order = [2, 1], seg = 1\<rparr>"
    unfolding line3_seed
    by (rule reaches_step [OF reaches_start _ line3_first_iteration]) simp
  have a: "assemble geo False (1/2) line3 [0, 1, 2] =
       Inr \<lparr>store = line3, src_segments = [0], segments_in_order = [2, 1], seg = 1\<rparr>"
    unfolding assemble_def using ne line3_join_loop by (simp only: if_False)
  from on_line r have count: "length (segments_in_order
        \<lparr>store = line3, src_segments = [0], segments_in_order = [2, 1], seg = 1\<rparr>)
     + length (src_segments
        \<lparr>store = line3, src_segments = [0], segments_in_order = [2, 1], seg = 1\<rparr>)
     = length [0, 1, 2 :: ref]"
    by blast
  let ?L = "\<lparr>store = line3, src_segments = [0, 1], segments_in_order = [2], seg = 2\<rparr>"
  have l1: "coords_first (store ?L (seg ?L)) = Inr (1, 0)"
    and l2: "coords_last (store ?L (seg ?L)) = Inr (2, 0)"
    by (simp_all add: coords_first_def coords_last_def line3_def)
  have l3: "find_closest geo False (store ?L) (2, 0) (src_segments ?L) =
      Inr \<lparr>closest_segment = Some 1, closest_location = Some AtStart, closest_distance = 0\<rparr>"
    by (simp add: eval_defs line3_def)
  have l4: "matched
      \<lparr>closest_segment = Some 1, closest_location = Some AtStart, closest_distance = 0\<rparr>
      (1/2) = Some 1"
    by (simp add: matched_def)
  from on_line have "\<forall>st start end m c.
            coords_first (store st (seg st)) = Inr start \<longrightarrow>
            coords_last (store st (seg st)) = Inr end \<longrightarrow>
            find_closest geo False (store st) end (src_segments st) = Inr m \<longrightarrow>
            matched m (1/2) = Some c \<longrightarrow>
            (\<exists>pre post st'. loop_body geo False (1/2) st = Continue st'
               \<and> src_segments st = pre @ c # post \<and> src_segments st' = pre @ post
               \<and> segments_in_order st' = segments_in_order st @ [c]
               \<and> Suc (length (src_segments st')) = length (src_segments st)
               \<and> length (segments_in_order st') = Suc (length (segments_in_order st)))"
    by (elim conjE)
  from this [rule_format, OF l1 l2 l3 l4]
  have tail: "\<exists>pre post st'. loop_body geo False (1/2) ?L = Continue st'
         \<and> [0, 1] = pre @ 1 # post \<and> src_segments st' = pre @ post
         \<and> segments_in_order st' = [2] @ [1]"
    by (simp only: state.simps) blast
  let ?J = "\<lparr>store = junction, src_segments = [0, 1], segments_in_order = [2], seg = 2\<rparr>"
  have j1: "coords_first (store ?J (seg ?J)) = Inr (0, 0)"
    and j2: "coords_last (store ?J (seg ?J)) = Inr (4, 0)"
    by (simp_all add: coords_first_def coords_last_def junction_def)
  have j3: "find_closest geo False (store ?J) (4, 0) (src_segments ?J) =
      Inr \<lparr>closest_segment = Some 0, closest_location = Some AtStart, closest_distance = 4\<rparr>"
    by (simp add: eval_defs junction_def)
  have j4: "matched
      \<lparr>closest_segment = Some 0, closest_location = Some AtStart, closest_distance = 4\<rparr>
      1 = None"
    by (simp add: matched_def)
  have j5: "find_closest geo False (store ?J) (0, 0) (src_segments ?J) =
      Inr \<lparr>closest_segment = Some 0, closest_location = Some AtStart, closest_distance = 0\<rparr>"
    by (simp add: eval_defs junction_def)
  have j6: "matched
      \<lparr>closest_segment = Some 0, closest_location = Some AtStart, closest_distance = 0\<rparr>
      1 = Some 0"
    by (simp add: matched_def)
  from on_junction have "\<forall>st start end m m' c.
            coords_first (store st (seg st)) = Inr start \<longrightarrow>
            coords_last (store st (seg st)) = Inr end \<longrightarrow>
            find_closest geo False (store st) end (src_segments st) = Inr m \<longrightarrow>
            matched m 1 = None \<longrightarrow>
            find_closest geo False (store st) start (src_segments st) = Inr m' \<longrightarrow>
            matched m' 1 = Some c \<longrightarrow>
            (\<exists>pre post st'. loop_body geo False 1 st = Continue st'
               \<and> src_segments st = pre @ c # post \<and> src_segments st' = pre @ post
               \<and> segments_in_order st' = c # segments_in_order st
               \<and> Suc (length (src_segments st')) = length (src_segments st)
               \<and> length (segments_in_order st') = Suc (length (segments_in_order st)))"
    by (elim conjE)
  from this [rule_format, OF j1 j2 j3 j4 j5 j6]
  have head: "\<exists>pre post st'. loop_body geo False 1 ?J = Continue st'
         \<and> [0, 1] = pre @ 0 # post \<and> src_segments st' = pre @ post
         \<and> segments_in_order st' = 0 # [2]"
    by (simp only: state.simps) blast
  from r a count tail head show ?thesis by (intro conjI)
qed

section \<open>Output and the single polyline\<close>

lemma fold_append_coords:
  "fold (\<lambda>s acc. acc @ h s) chain acc = acc @ concat (map h chain)"
  by (induction chain arbitrary: acc) simp_all

lemma all_coords_concat: "all_coords h chain = concat (map h chain)"
  by (simp add: all_coords_def fold_append_coords)

text \<open>
  C8. In combine mode the one record written is the concatenation of the coordinate
  sequences of the chain, in chain order; nothing is dropped, so it has as many points as
  the chain polylines together, and five for a polyline of three points followed by one
  of two.
\<close>

theorem combine_concatenates:
  "write_output True st = [concat (map (store st) (segments_in_order st))]
   \<and> length (all_coords h chain) = sum_list (map (\<lambda>r. length (h r)) chain)
   \<and> (length (h a) = 3 \<and> length (h b) = 2 \<longrightarrow> length (all_coords h [a, b]) = 5)"
  by (simp add: write_output_def all_coords_concat length_concat comp_def)

theorem combine_concatenates_witness:
  "join_em geo [Some [(2, 0), (3, 0)], Some [(0, 0), (1, 0), (2, 0)]] (1/2) False True =
     Inr [[(0, 0), (1, 0), (2, 0), (2, 0), (3, 0)]]
   \<and> length (all_coords ((\<lambda>r. [])(0 := [(2, 0), (3, 0)], 1 := [(0, 0), (1, 0), (2, 0)])) [1, 0])
     = 5"
proof -
  let ?h = "(\<lambda>r :: ref. [])(0 := [(2, 0), (3, 0)], 1 := [(0 :: real, 0 :: real), (1, 0), (2, 0)])"
  have "length (?h 1) = 3 \<and> length (?h 0) = 2" by simp
  with combine_concatenates [of _ ?h "[1, 0]" 1 0]
  have "length (all_coords ?h [1, 0]) = 5" by blast
  moreover have
    "join_em geo [Some [(2, 0), (3, 0)], Some [(0, 0), (1, 0), (2, 0)]] (1/2) False True =
     Inr [[(0, 0), (1, 0), (2, 0), (2, 0), (3, 0)]]"
    by (simp add: join_em_def read_source_def assemble_def write_output_def all_coords_def
        seed_def join_loop.simps eval_defs upt_rec)
  ultimately show ?thesis by simp
qed

text \<open>
  C9. With one polyline in the pool the assembly returns the chain of that polyline, its
  coordinates as they were, and an empty pool, for every tolerance and either distance;
  what is written is that one polyline, in both output modes.
\<close>

theorem single_polyline_identity:
  "assemble lib hav tolerance h [r] =
     Inr \<lparr>store = h, src_segments = [], segments_in_order = [r], seg = r\<rparr>
   \<and> join_em lib [Some g] tolerance hav combine = Inr [g]"
  by (simp add: assemble_def seed_def join_loop_empty join_em_def read_source_def
      write_output_def all_coords_def)

theorem single_polyline_identity_witness:
  "assemble geo False (1/2) line3 [2] =
     Inr \<lparr>store = line3, src_segments = [], segments_in_order = [2], seg = 2\<rparr>
   \<and> join_em geo [Some [(1, 0), (2, 0)]] (1/2) False True = Inr [[(1, 0), (2, 0)]]"
  using single_polyline_identity [of geo False "1/2" line3 2 "[(1, 0), (2, 0)]" True]
  by simp

section \<open>Polylines left in the pool\<close>

lemma reaches_frame:
  assumes "reaches lib hav tolerance st0 st"
    and "distinct (src_segments st0 @ segments_in_order st0)"
  shows "distinct (src_segments st @ segments_in_order st)
       \<and> set (src_segments st) \<subseteq> set (src_segments st0)
       \<and> (\<forall>r. store st r \<noteq> store st0 r \<longrightarrow> r \<in> set (segments_in_order st))"
  using assms
proof (induction rule: reaches.induct)
  case reaches_start
  then show ?case by simp
next
  case (reaches_step st' st'')
  then have dist: "distinct (src_segments st' @ segments_in_order st')"
    and sub: "set (src_segments st') \<subseteq> set (src_segments st0)"
    and frame: "\<forall>r. store st' r \<noteq> store st0 r \<longrightarrow> r \<in> set (segments_in_order st')"
    by simp_all
  from loop_body_Continue [OF reaches_step.hyps(3)] obtain c pre post where
    pool: "src_segments st' = pre @ c # post" and pool': "src_segments st'' = pre @ post"
    and chain: "segments_in_order st'' = segments_in_order st' @ [c]
                \<or> segments_in_order st'' = c # segments_in_order st'"
    and st: "store st'' = store st' \<or> store st'' = flip (store st') c"
    by blast
  have "distinct (src_segments st'' @ segments_in_order st'')"
    using dist pool pool' chain by auto
  moreover have "set (src_segments st'') \<subseteq> set (src_segments st0)"
    using sub pool pool' by auto
  moreover have "\<forall>r. store st'' r \<noteq> store st0 r \<longrightarrow> r \<in> set (segments_in_order st'')"
  proof (intro allI impI)
    fix r
    assume changed: "store st'' r \<noteq> store st0 r"
    show "r \<in> set (segments_in_order st'')"
    proof (cases "r = c")
      case True
      with chain show ?thesis by auto
    next
      case False
      with st have "store st'' r = store st' r" by (auto simp: flip_def)
      with changed frame have "r \<in> set (segments_in_order st')" by simp
      with chain show ?thesis by auto
    qed
  qed
  ultimately show ?case by blast
qed

lemma seed_distinct:
  "segments \<noteq> [] \<Longrightarrow> distinct segments \<Longrightarrow>
   distinct (src_segments (seed h segments) @ segments_in_order (seed h segments))"
  by (simp add: seed_def)

lemma line3r_first_iteration:
  "loop_body geo False (1/2)
     \<lparr>store = line3r, src_segments = [0, 1], segments_in_order = [2], seg = 2\<rparr> =
   Continue \<lparr>store = line3r(1 := [(2, 0), (3, 0)]), src_segments = [0],
             segments_in_order = [2, 1], seg = 1\<rparr>"
  by (simp add: eval_defs line3r_def)

lemma line3r_second_iteration:
  "loop_body geo False (1/2)
     \<lparr>store = line3r(1 := [(2, 0), (3, 0)]), src_segments = [0],
      segments_in_order = [2, 1], seg = 1\<rparr> =
   Break \<lparr>store = line3r(1 := [(2, 0), (3, 0)]), src_segments = [0],
          segments_in_order = [2, 1], seg = 1\<rparr>"
  by (simp add: eval_defs line3r_def)

lemma line3r_assemble:
  "assemble geo False (1/2) line3r [0, 1, 2] =
   Inr \<lparr>store = line3r(1 := [(2, 0), (3, 0)]), src_segments = [0],
        segments_in_order = [2, 1], seg = 1\<rparr>"
proof -
  have ne: "[0, 1, 2] \<noteq> ([] :: ref list)" by simp
  have sd: "seed line3r [0, 1, 2] =
      \<lparr>store = line3r, src_segments = [0, 1], segments_in_order = [2], seg = 2\<rparr>"
    by (simp add: seed_def)
  have "join_loop geo False (1/2) (seed line3r [0, 1, 2]) =
      join_loop geo False (1/2)
        \<lparr>store = line3r(1 := [(2, 0), (3, 0)]), src_segments = [0],
         segments_in_order = [2, 1], seg = 1\<rparr>"
    unfolding sd by (rule join_loop_Continue [OF _ line3r_first_iteration]) simp
  also have "\<dots> =
      Inr \<lparr>store = line3r(1 := [(2, 0), (3, 0)]), src_segments = [0],
           segments_in_order = [2, 1], seg = 1\<rparr>"
    by (rule join_loop_Break [OF _ line3r_second_iteration]) simp
  finally show ?thesis
    unfolding assemble_def using ne by (simp only: if_False)
qed

text \<open>
  C10. When the objects of the input are distinct, every polyline still in the pool, in
  any state the loop reaches and in the state the assembly returns, has the coordinate
  sequence it had in the input; an object whose coordinates differ from the input is in
  the chain and not in the pool.
\<close>

theorem leftovers_keep_coordinates:
  assumes "distinct segments"
  shows "(\<forall>st. segments \<noteq> [] \<and> reaches lib hav tolerance (seed h segments) st \<longrightarrow>
            (\<forall>r\<in>set (src_segments st). store st r = h r))
       \<and> (\<forall>st. assemble lib hav tolerance h segments = Inr st \<longrightarrow>
            (\<forall>r\<in>set (src_segments st). store st r = h r \<and> r \<in> set segments)
            \<and> (\<forall>r. store st r \<noteq> h r \<longrightarrow>
                  r \<in> set (segments_in_order st) \<and> r \<notin> set (src_segments st)))"
proof -
  have frame: "distinct (src_segments st @ segments_in_order st)
       \<and> set (src_segments st) \<subseteq> set segments
       \<and> (\<forall>r. store st r \<noteq> h r \<longrightarrow> r \<in> set (segments_in_order st))"
    if ne: "segments \<noteq> []" and r: "reaches lib hav tolerance (seed h segments) st" for st
  proof -
    have "set (src_segments (seed h segments)) \<subseteq> set segments"
      by (auto simp: seed_def dest: in_set_butlastD)
    moreover have "store (seed h segments) = h" by (simp add: seed_def)
    ultimately show ?thesis
      using reaches_frame [OF r seed_distinct [OF ne assms]] by auto
  qed
  have one: "\<forall>r\<in>set (src_segments st). store st r = h r"
    if "segments \<noteq> [] \<and> reaches lib hav tolerance (seed h segments) st" for st
  proof -
    from that have "distinct (src_segments st @ segments_in_order st)
       \<and> (\<forall>r. store st r \<noteq> h r \<longrightarrow> r \<in> set (segments_in_order st))"
      using frame by blast
    then show ?thesis by auto
  qed
  have two: "(\<forall>r\<in>set (src_segments st). store st r = h r \<and> r \<in> set segments)
            \<and> (\<forall>r. store st r \<noteq> h r \<longrightarrow>
                  r \<in> set (segments_in_order st) \<and> r \<notin> set (src_segments st))"
    if a: "assemble lib hav tolerance h segments = Inr st" for st
  proof -
    from a have ne: "segments \<noteq> []" by (auto simp: assemble_def split: if_splits)
    with a have "join_loop lib hav tolerance (seed h segments) = Inr st"
      by (simp add: assemble_def)
    then have "reaches lib hav tolerance (seed h segments) st" by (rule join_loop_reaches)
    from frame [OF ne this] show ?thesis by auto
  qed
  from one two show ?thesis by blast
qed

theorem leftovers_keep_coordinates_witness:
  "assemble geo False (1/2) line3r [0, 1, 2] =
     Inr \<lparr>store = line3r(1 := [(2, 0), (3, 0)]), src_segments = [0],
          segments_in_order = [2, 1], seg = 1\<rparr>
   \<and> (line3r(1 := [(2, 0), (3, 0)])) 0 = line3r 0
   \<and> (line3r(1 := [(2, 0), (3, 0)])) 1 \<noteq> line3r 1"
proof -
  have d: "distinct [0, 1, 2 :: ref]" by simp
  from leftovers_keep_coordinates [OF d, of geo False "1/2" line3r]
    line3r_assemble
  have "\<forall>r\<in>set [0 :: ref]. (line3r(1 := [(2, 0), (3, 0)])) r = line3r r"
    by fastforce
  then have "(line3r(1 := [(2, 0), (3, 0)])) 0 = line3r 0" by simp
  moreover have "(line3r(1 := [(2, 0), (3, 0)])) 1 \<noteq> line3r 1"
    by (simp add: line3r_def)
  ultimately show ?thesis using line3r_assemble by blast
qed

section \<open>The tolerance\<close>

lemma find_closest_single:
  "h a \<noteq> [] \<Longrightarrow>
   find_closest lib hav h p [a] =
     Inr (if endpoint_distance lib hav p (last (h a)) < endpoint_distance lib hav p (hd (h a))
          then \<lparr>closest_segment = Some a, closest_location = Some AtEnd,
                closest_distance = endpoint_distance lib hav p (last (h a))\<rparr>
          else \<lparr>closest_segment = Some a, closest_location = Some AtStart,
                closest_distance = endpoint_distance lib hav p (hd (h a))\<rparr>)"
  by (simp add: find_closest_def coords_first_Inr coords_last_Inr update_closest_def)

lemma matched_single:
  assumes "h a \<noteq> []" and "find_closest lib hav h p [a] = Inr m"
  shows "matched m tolerance =
     (if min (endpoint_distance lib hav p (hd (h a))) (endpoint_distance lib hav p (last (h a)))
          < tolerance
      then Some a else None)"
  using assms(2) unfolding find_closest_single [of h a, OF assms(1)]
  by (auto simp: matched_def min_def split: if_splits)

lemma pair_loop_body:
  fixes lib :: geolib and hav :: bool and h :: store and a b :: ref and tolerance :: real
  assumes a: "h a \<noteq> []" and b: "h b \<noteq> []"
  defines "st \<equiv> \<lparr>store = h, src_segments = [a], segments_in_order = [b], seg = b\<rparr>"
  defines "dt \<equiv> min (endpoint_distance lib hav (last (h b)) (hd (h a)))
                     (endpoint_distance lib hav (last (h b)) (last (h a)))"
  defines "dh \<equiv> min (endpoint_distance lib hav (hd (h b)) (hd (h a)))
                     (endpoint_distance lib hav (hd (h b)) (last (h a)))"
  shows "(dt < tolerance \<longrightarrow>
            (\<exists>st'. loop_body lib hav tolerance st = Continue st' \<and> src_segments st' = []
                  \<and> segments_in_order st' = [b, a]))
       \<and> (\<not> dt < tolerance \<and> dh < tolerance \<longrightarrow>
            (\<exists>st'. loop_body lib hav tolerance st = Continue st' \<and> src_segments st' = []
                  \<and> segments_in_order st' = [a, b]))
       \<and> (\<not> dt < tolerance \<and> \<not> dh < tolerance \<longrightarrow> loop_body lib hav tolerance st = Break st)"
proof -
  obtain m where m: "find_closest lib hav h (last (h b)) [a] = Inr m"
    by (simp add: find_closest_single [of h a, OF a])
  obtain m' where m': "find_closest lib hav h (hd (h b)) [a] = Inr m'"
    by (simp add: find_closest_single [of h a, OF a])
  have mt: "matched m tolerance = (if dt < tolerance then Some a else None)"
    unfolding dt_def by (rule matched_single [of h a, OF a m])
  have mh: "matched m' tolerance = (if dh < tolerance then Some a else None)"
    unfolding dh_def by (rule matched_single [of h a, OF a m'])
  show ?thesis
    using m m' mt mh
    by (simp add: st_def loop_body_def coords_first_Inr [of "h b", OF b] coords_last_Inr [of "h b", OF b]
        join_at_end_def join_at_start_def)
qed

text \<open>
  C3. For an input of two non-empty polylines, with d the smallest distance between an end
  point of the seed and an end point of the other polyline, the assembly returns both in
  the chain with an empty pool when d < tolerance, and otherwise returns the seed alone in
  the chain, the other polyline left in the pool and nothing reversed; so there is no join
  at d = tolerance.
\<close>

theorem tolerance_is_strict:
  assumes "h a \<noteq> []" and "h b \<noteq> []"
  shows "\<exists>st. assemble lib hav tolerance h [a, b] = Inr st
       \<and> (if nearest_endpoints lib hav (h b) (h a) < tolerance
          then src_segments st = []
               \<and> (segments_in_order st = [b, a] \<or> segments_in_order st = [a, b])
          else src_segments st = [a] \<and> segments_in_order st = [b] \<and> store st = h)"
proof -
  let ?st = "\<lparr>store = h, src_segments = [a], segments_in_order = [b], seg = b\<rparr>"
  let ?dt = "min (endpoint_distance lib hav (last (h b)) (hd (h a)))
                 (endpoint_distance lib hav (last (h b)) (last (h a)))"
  let ?dh = "min (endpoint_distance lib hav (hd (h b)) (hd (h a)))
                 (endpoint_distance lib hav (hd (h b)) (last (h a)))"
  have asm: "assemble lib hav tolerance h [a, b] = join_loop lib hav tolerance ?st"
    by (simp add: assemble_def seed_def)
  have near: "nearest_endpoints lib hav (h b) (h a) < tolerance
      \<longleftrightarrow> ?dt < tolerance \<or> ?dh < tolerance"
    by (auto simp: nearest_endpoints_def min_def)
  note body = pair_loop_body [of h a b lib hav tolerance, OF assms]
  consider (tail) "?dt < tolerance" | (head) "\<not> ?dt < tolerance" "?dh < tolerance"
    | (none) "\<not> ?dt < tolerance" "\<not> ?dh < tolerance"
    by blast
  then show ?thesis
  proof cases
    case tail
    with body obtain st' where
      c: "loop_body lib hav tolerance ?st = Continue st'" and p: "src_segments st' = []"
      and ch: "segments_in_order st' = [b, a]" by blast
    have "join_loop lib hav tolerance ?st = join_loop lib hav tolerance st'"
      by (rule join_loop_Continue [OF _ c]) simp
    also have "\<dots> = Inr st'" using p by (rule join_loop_empty)
    finally show ?thesis using tail near p ch asm by simp
  next
    case head
    with body obtain st' where
      c: "loop_body lib hav tolerance ?st = Continue st'" and p: "src_segments st' = []"
      and ch: "segments_in_order st' = [a, b]" by blast
    have "join_loop lib hav tolerance ?st = join_loop lib hav tolerance st'"
      by (rule join_loop_Continue [OF _ c]) simp
    also have "\<dots> = Inr st'" using p by (rule join_loop_empty)
    finally show ?thesis using head near p ch asm by simp
  next
    case none
    with body have "loop_body lib hav tolerance ?st = Break ?st" by blast
    then have "join_loop lib hav tolerance ?st = Inr ?st"
      by (intro join_loop_Break) simp_all
    then show ?thesis using none near asm by simp
  qed
qed

theorem tolerance_is_strict_witness:
  "nearest_endpoints geo False (line3 1) (line3 0) = 1
   \<and> (\<exists>st. assemble geo False 1 line3 [0, 1] = Inr st
         \<and> src_segments st = [0] \<and> segments_in_order st = [1] \<and> store st = line3)
   \<and> (\<exists>st. assemble geo False (1 + 1/1000) line3 [0, 1] = Inr st
         \<and> src_segments st = []
         \<and> (segments_in_order st = [1, 0] \<or> segments_in_order st = [0, 1]))"
proof -
  have a: "line3 0 \<noteq> []" and b: "line3 1 \<noteq> []" by (simp_all add: line3_def)
  have d: "nearest_endpoints geo False (line3 1) (line3 0) = 1"
    by (simp add: nearest_endpoints_def endpoint_distance_def geo_def line3_def)
  from tolerance_is_strict [of line3 0 1 geo False 1, OF a b]
    tolerance_is_strict [of line3 0 1 geo False "1 + 1/1000", OF a b]
  show ?thesis unfolding d by simp
qed

section \<open>The points an iteration searches from\<close>

lemma junction_first_iteration:
  "loop_body geo False 1
     \<lparr>store = junction, src_segments = [0, 1], segments_in_order = [2], seg = 2\<rparr> =
   Continue \<lparr>store = junction(0 := [(0, 3), (0, 0)]), src_segments = [1],
             segments_in_order = [0, 2], seg = 0\<rparr>"
  by (simp add: eval_defs junction_def)

lemma junction_second_iteration:
  "loop_body geo False 1
     \<lparr>store = junction(0 := [(0, 3), (0, 0)]), src_segments = [1],
      segments_in_order = [0, 2], seg = 0\<rparr> =
   Continue \<lparr>store = junction(0 := [(0, 3), (0, 0)], 1 := [(0, 0), (-4, 0)]),
             src_segments = [], segments_in_order = [0, 2, 1], seg = 1\<rparr>"
  by (simp add: eval_defs junction_def)

text \<open>
  C1. Both searches of an iteration start from the variable \<open>seg\<close>, the segment joined
  last, and not from the two ends of the chain. On the line cut in three, with the middle
  piece as seed, the second iteration has the chain [2, 1]: its search from the start point
  uses (2, 0), the start of the last polyline, where the first polyline of the chain starts
  at (1, 0), and so the loop gives up although the polyline left in the pool ends exactly
  there. At the junction, the second iteration has the chain [0, 2]: its search from the
  end point uses (0, 0), the end of the first polyline, where the last polyline of the
  chain ends at (4, 0), and the polyline found is put behind that one.
\<close>

theorem searches_start_from_last_joined:
  "join_em geo [Some [(0, 0), (1, 0)], Some [(2, 0), (3, 0)], Some [(1, 0), (2, 0)]]
       (1/2) False False
     = Inr [[(1, 0), (2, 0)], [(2, 0), (3, 0)]]
   \<and> reaches geo False (1/2) (seed line3 [0, 1, 2])
       \<lparr>store = line3, src_segments = [0], segments_in_order = [2, 1], seg = 1\<rparr>
   \<and> coords_first (line3 1) = Inr (2, 0)
   \<and> coords_first (line3 (hd [2, 1])) = Inr (1, 0)
   \<and> find_closest geo False line3 (1, 0) [0] =
       Inr \<lparr>closest_segment = Some 0, closest_location = Some AtEnd, closest_distance = 0\<rparr>
   \<and> loop_body geo False (1/2)
       \<lparr>store = line3, src_segments = [0], segments_in_order = [2, 1], seg = 1\<rparr>
     = Break \<lparr>store = line3, src_segments = [0], segments_in_order = [2, 1], seg = 1\<rparr>
   \<and> reaches geo False 1 (seed junction [0, 1, 2])
       \<lparr>store = junction(0 := [(0, 3), (0, 0)]), src_segments = [1],
        segments_in_order = [0, 2], seg = 0\<rparr>
   \<and> coords_last ((junction(0 := [(0, 3), (0, 0)])) 0) = Inr (0, 0)
   \<and> coords_last ((junction(0 := [(0, 3), (0, 0)])) (last [0, 2])) = Inr (4, 0)
   \<and> loop_body geo False 1
       \<lparr>store = junction(0 := [(0, 3), (0, 0)]), src_segments = [1],
        segments_in_order = [0, 2], seg = 0\<rparr>
     = Continue \<lparr>store = junction(0 := [(0, 3), (0, 0)], 1 := [(0, 0), (-4, 0)]),
                 src_segments = [], segments_in_order = [0, 2, 1], seg = 1\<rparr>
   \<and> join_em geo [Some [(0, 0), (0, 3)], Some [(-4, 0), (0, 0)], Some [(0, 0), (4, 0)]]
       1 False True
     = Inr [[(0, 3), (0, 0), (0, 0), (4, 0), (0, 0), (-4, 0)]]"
proof -
  have "join_em geo [Some [(0, 0), (1, 0)], Some [(2, 0), (3, 0)], Some [(1, 0), (2, 0)]]
       (1/2) False False
     = Inr [[(1, 0), (2, 0)], [(2, 0), (3, 0)]]"
    by (simp add: join_em_def read_source_def assemble_def write_output_def seed_def
        join_loop.simps eval_defs upt_rec)
  moreover have "reaches geo False (1/2) (seed line3 [0, 1, 2])
       \<lparr>store = line3, src_segments = [0], segments_in_order = [2, 1], seg = 1\<rparr>"
    unfolding line3_seed
    by (rule reaches_step [OF reaches_start _ line3_first_iteration]) simp
  moreover have "coords_first (line3 1) = Inr (2, 0)"
    and "coords_first (line3 (hd [2, 1])) = Inr (1, 0)"
    by (simp_all add: coords_first_def line3_def)
  moreover have "find_closest geo False line3 (1, 0) [0] =
       Inr \<lparr>closest_segment = Some 0, closest_location = Some AtEnd, closest_distance = 0\<rparr>"
    by (simp add: eval_defs line3_def)
  moreover note line3_second_iteration
  moreover have "reaches geo False 1 (seed junction [0, 1, 2])
       \<lparr>store = junction(0 := [(0, 3), (0, 0)]), src_segments = [1],
        segments_in_order = [0, 2], seg = 0\<rparr>"
  proof -
    have "seed junction [0, 1, 2] =
        \<lparr>store = junction, src_segments = [0, 1], segments_in_order = [2], seg = 2\<rparr>"
      by (simp add: seed_def)
    then show ?thesis
      using reaches_step [OF reaches_start _ junction_first_iteration] by simp
  qed
  moreover have "coords_last ((junction(0 := [(0, 3), (0, 0)])) 0) = Inr (0, 0)"
    and "coords_last ((junction(0 := [(0, 3), (0, 0)])) (last [0, 2])) = Inr (4, 0)"
    by (simp_all add: coords_last_def junction_def)
  moreover note junction_second_iteration
  moreover have
    "join_em geo [Some [(0, 0), (0, 3)], Some [(-4, 0), (0, 0)], Some [(0, 0), (4, 0)]]
       1 False True
     = Inr [[(0, 3), (0, 0), (0, 0), (4, 0), (0, 0), (-4, 0)]]"
    by (simp add: join_em_def read_source_def assemble_def write_output_def all_coords_def
        seed_def join_loop.simps eval_defs upt_rec)
  ultimately show ?thesis by blast
qed

section \<open>The objects read from the source are distinct\<close>

lemma read_source_distinct:
  "read_source features = (h, segments) \<Longrightarrow> distinct segments"
  by (auto simp: read_source_def Let_def)

end
